theory Spec2Isabelle
  imports Main "HOL-Library.Stream"
begin

section \<open>The URL shortener of \<^verbatim>\<open>app.py\<close>\<close>

text \<open>
  The application is a Flask program over two SQLAlchemy tables. The model below follows
  the handler functions of \<^verbatim>\<open>app.py\<close> line by line:
  \<^item> a table is the list of its rows in insertion (rowid) order; a query without
    \<^verbatim>\<open>ORDER BY\<close> scans the table in that order;
  \<^item> the database is passed in and returned; a handler that raises leaves it as it was
    (the pending session is discarded at the end of the request);
  \<^item> a raised exception is a value of type \<open>error\<close>;
  \<^item> the interpreter's call stack is finite: the number of nested activations of
    \<^verbatim>\<open>generate_short_url\<close> it has room for is a parameter of the model (under CPython's
    default recursion limit of 1000, inside a Flask request, somewhat below 1000), and the
    activation beyond it raises \<^verbatim>\<open>RecursionError\<close>;
  \<^item> the module \<^verbatim>\<open>random\<close> is a stream of natural numbers: each call of
    \<^verbatim>\<open>random.choice\<close> consumes one element and reduces it modulo the length of the
    sequence, so that every outcome of the call is covered by some stream;
  \<^item> the login cookie is the optional id of the logged-in user, passed in with the request
    and returned with the response;
  \<^item> werkzeug's two password functions are parameters of the model;
  \<^item> Python's integers are unbounded, so the click counter is an \<open>int\<close>; every row
    is written by the application, which stores the column default 0, so the counter is
    never null.
  The module-level statements of the file (the construction of the Flask object, the
  final \<^verbatim>\<open>app.run\<close>) are not part of the model.
\<close>

subsection \<open>Tables\<close>

text \<open>\<^verbatim>\<open>class User\<close>: id (primary key), email (unique, not null), password (not null).\<close>

record User =
  id_User :: int
  email :: string
  password :: string

text \<open>
  \<^verbatim>\<open>class URL\<close>: id (primary key), original_url (not null), short_url (unique, not null),
  clicks (default 0), user_id (foreign key, not null).
\<close>

record URL =
  id_URL :: int
  original_url :: string
  short_url :: string
  clicks :: int
  user_id :: int

record db =
  User_rows :: "User list"
  URL_rows :: "URL list"

definition empty_db :: db where
  "empty_db = \<lparr>User_rows = [], URL_rows = []\<rparr>"

datatype error = NotFound | IntegrityError | HashError | RecursionError

text \<open>The status code Flask answers with when the exception leaves the handler.\<close>

fun http_status :: "error \<Rightarrow> nat" where
  "http_status NotFound = 404"
| "http_status IntegrityError = 500"
| "http_status HashError = 500"
| "http_status RecursionError = 500"

text \<open>\<^verbatim>\<open>Query.first()\<close>: the first row of the result, or \<^verbatim>\<open>None\<close>.\<close>

fun first :: "'a list \<Rightarrow> 'a option" where
  "first [] = None"
| "first (x # xs) = Some x"

text \<open>The next value of an integer primary key: one more than the largest rowid.\<close>

definition next_id :: "int list \<Rightarrow> int" where
  "next_id ids = foldr max ids 0 + 1"

definition filter_by_short_url :: "db \<Rightarrow> string \<Rightarrow> URL list" where
  "filter_by_short_url d code = filter (\<lambda>r. short_url r = code) (URL_rows d)"

definition filter_by_user_id :: "db \<Rightarrow> int \<Rightarrow> URL list" where
  "filter_by_user_id d uid = filter (\<lambda>r. user_id r = uid) (URL_rows d)"

text \<open>
  \<^verbatim>\<open>filter_by(email=email)\<close>: a missing form field is \<^verbatim>\<open>None\<close>, the query compares
  with \<^verbatim>\<open>IS NULL\<close>, and no row has a null email.
\<close>

definition filter_by_email :: "db \<Rightarrow> string option \<Rightarrow> User list" where
  "filter_by_email d e =
     (case e of None \<Rightarrow> [] | Some a \<Rightarrow> filter (\<lambda>u. email u = a) (User_rows d))"

text \<open>
  \<^verbatim>\<open>db.session.add(new_url); db.session.commit()\<close>: the store checks the column
  constraints of \<^verbatim>\<open>URL\<close> itself, whatever the caller checked before: \<^verbatim>\<open>original_url\<close>
  not null, \<^verbatim>\<open>short_url\<close> unique. The id is assigned by the store and \<^verbatim>\<open>clicks\<close>
  takes its default 0.
\<close>

definition add_URL :: "db \<Rightarrow> string option \<Rightarrow> string \<Rightarrow> int \<Rightarrow> error + db" where
  "add_URL d ourl code uid =
     (case ourl of
        None \<Rightarrow> Inl IntegrityError
      | Some u \<Rightarrow>
          if filter_by_short_url d code \<noteq> [] then Inl IntegrityError
          else Inr (d\<lparr>URL_rows := URL_rows d @
                 [\<lparr>id_URL = next_id (map id_URL (URL_rows d)), original_url = u,
                   short_url = code, clicks = 0, user_id = uid\<rparr>]\<rparr>))"

text \<open>
  \<^verbatim>\<open>db.session.add(new_user); db.session.commit()\<close>: \<^verbatim>\<open>email\<close> not null and unique.
\<close>

definition add_User :: "db \<Rightarrow> string option \<Rightarrow> string \<Rightarrow> error + db" where
  "add_User d e pw =
     (case e of
        None \<Rightarrow> Inl IntegrityError
      | Some a \<Rightarrow>
          if filter_by_email d (Some a) \<noteq> [] then Inl IntegrityError
          else Inr (d\<lparr>User_rows := User_rows d @
                 [\<lparr>id_User = next_id (map id_User (User_rows d)), email = a,
                   password = pw\<rparr>]\<rparr>))"

subsection \<open>The code generator\<close>

definition ascii_lowercase :: string where
  "ascii_lowercase = ''abcdefghijklmnopqrstuvwxyz''"

definition ascii_uppercase :: string where
  "ascii_uppercase = ''ABCDEFGHIJKLMNOPQRSTUVWXYZ''"

definition ascii_letters :: string where
  "ascii_letters = ascii_lowercase @ ascii_uppercase"

definition digits :: string where
  "digits = ''0123456789''"

text \<open>\<^verbatim>\<open>characters = string.ascii_letters + string.digits\<close>\<close>

definition characters :: string where
  "characters = ascii_letters @ digits"

text \<open>
  \<^verbatim>\<open>random.choice(seq)\<close> is \<^verbatim>\<open>seq[randbelow(len(seq))]\<close>. The only sequence the
  program passes is \<open>characters\<close>, which is not empty, so the index is in range.
\<close>

definition random_choice :: "'a list \<Rightarrow> nat stream \<Rightarrow> 'a \<times> nat stream" where
  "random_choice seq rng = (seq ! (shd rng mod length seq), stl rng)"

text \<open>\<^verbatim>\<open>''.join(random.choice(seq) for _ in range(n))\<close>: n draws, in order.\<close>

fun join_choices :: "nat \<Rightarrow> 'a list \<Rightarrow> nat stream \<Rightarrow> 'a list \<times> nat stream" where
  "join_choices 0 seq rng = ([], rng)"
| "join_choices (Suc n) seq rng =
     (case random_choice seq rng of (c, rng') \<Rightarrow>
        case join_choices n seq rng' of (cs, rng'') \<Rightarrow> (c # cs, rng''))"

text \<open>
  \<^verbatim>\<open>generate_short_url\<close> calls itself on a collision, with no counter and no other exit:
  every collision costs one more frame of the interpreter's stack. The first argument is
  the number of nested activations the stack still has room for; with none left the call
  raises \<^verbatim>\<open>RecursionError\<close>. The random source is returned as the draws left it.
\<close>

fun generate_short_url :: "nat \<Rightarrow> db \<Rightarrow> nat stream \<Rightarrow> (error + string) \<times> nat stream" where
  "generate_short_url 0 d rng = (Inl RecursionError, rng)"
| "generate_short_url (Suc n) d rng =
     (case join_choices 6 characters rng of (code, rng') \<Rightarrow>
        if first (filter_by_short_url d code) \<noteq> None
        then generate_short_url n d rng'
        else (Inr code, rng'))"

subsection \<open>Requests and responses\<close>

datatype http_method = GET | POST

text \<open>\<^verbatim>\<open>request.form.get(name)\<close> is \<^verbatim>\<open>None\<close> for a field the form does not hold.\<close>

type_synonym form = "string \<rightharpoonup> string"

text \<open>The login cookie: the id of the logged-in user, if any.\<close>

type_synonym session = "int option"

text \<open>
  A response renders a template (with the rows passed to it) or redirects;
  \<^verbatim>\<open>redirect(location)\<close> answers with status 302.
\<close>

datatype response = Render_template string "URL list" | Redirect nat string

definition redirect :: "string \<Rightarrow> response" where
  "redirect location = Redirect 302 location"

fun url_for :: "string \<Rightarrow> string" where
  "url_for endpoint = (if endpoint = ''index'' then ''/'' else ''/'' @ endpoint)"

text \<open>What a handler hands back: the messages it flashed and its response.\<close>

record reply =
  flashed :: "string list"
  response :: response

record werkzeug =
  generate_password_hash :: "string option \<Rightarrow> error + string"
  check_password_hash :: "string \<Rightarrow> string option \<Rightarrow> error + bool"

text \<open>\<^verbatim>\<open>load_user\<close>: \<^verbatim>\<open>User.query.get(int(user_id))\<close>.\<close>

definition load_user :: "db \<Rightarrow> int \<Rightarrow> User option" where
  "load_user d uid = first (filter (\<lambda>u. id_User u = uid) (User_rows d))"

text \<open>flask-login's \<^verbatim>\<open>current_user\<close>: the user the cookie names, if that row exists.\<close>

definition current_user :: "db \<Rightarrow> session \<Rightarrow> User option" where
  "current_user d s = (case s of None \<Rightarrow> None | Some uid \<Rightarrow> load_user d uid)"

text \<open>
  What \<^verbatim>\<open>@login_required\<close> answers to an anonymous request: with \<^verbatim>\<open>login_view\<close>
  set, a flashed message and a redirect to the login page.
\<close>

definition unauthorized :: reply where
  "unauthorized =
     \<lparr>flashed = [''Please log in to access this page.''], response = redirect (url_for ''login'')\<rparr>"

subsection \<open>The handlers\<close>

definition index :: reply where
  "index = \<lparr>flashed = [], response = Render_template ''index.html'' []\<rparr>"

definition register :: "werkzeug \<Rightarrow> http_method \<Rightarrow> form \<Rightarrow> db \<Rightarrow> db \<times> (error + reply)" where
  "register w m f d =
     (if m = POST then
        let e = f ''email''; pw = f ''password''; user = first (filter_by_email d e) in
        if user \<noteq> None then
          (d, Inr \<lparr>flashed = [''Email address already exists''],
                   response = redirect (url_for ''register'')\<rparr>)
        else
          (case generate_password_hash w pw of
             Inl err \<Rightarrow> (d, Inl err)
           | Inr h \<Rightarrow>
               (case add_User d e h of
                  Inl err \<Rightarrow> (d, Inl err)
                | Inr d' \<Rightarrow>
                    (d', Inr \<lparr>flashed = [''Account created successfully''],
                              response = redirect (url_for ''login'')\<rparr>)))
      else (d, Inr \<lparr>flashed = [], response = Render_template ''register.html'' []\<rparr>))"

text \<open>\<^verbatim>\<open>login\<close> only reads the database; \<^verbatim>\<open>login_user\<close> writes the cookie.\<close>

definition login :: "werkzeug \<Rightarrow> http_method \<Rightarrow> form \<Rightarrow> db \<Rightarrow> session \<Rightarrow> session \<times> (error + reply)" where
  "login w m f d s =
     (if m = POST then
        let e = f ''email''; pw = f ''password'' in
        (case first (filter_by_email d e) of
           None \<Rightarrow>
             (s, Inr \<lparr>flashed = [''Invalid email or password''],
                      response = redirect (url_for ''login'')\<rparr>)
         | Some user \<Rightarrow>
             (case check_password_hash w (password user) pw of
                Inl err \<Rightarrow> (s, Inl err)
              | Inr ok \<Rightarrow>
                  if ok then
                    (Some (id_User user),
                     Inr \<lparr>flashed = [], response = redirect (url_for ''dashboard'')\<rparr>)
                  else
                    (s, Inr \<lparr>flashed = [''Invalid email or password''],
                             response = redirect (url_for ''login'')\<rparr>)))
      else (s, Inr \<lparr>flashed = [], response = Render_template ''login.html'' []\<rparr>))"

text \<open>
  \<^verbatim>\<open>dashboard\<close>: on POST the short code is generated first, then the row is added and
  committed; otherwise the rows of the current user are listed. The first argument is the
  stack depth left for the generator; when the generator raises, nothing is stored.
\<close>

definition dashboard ::
  "nat \<Rightarrow> http_method \<Rightarrow> form \<Rightarrow> db \<Rightarrow> session \<Rightarrow> nat stream \<Rightarrow>
     db \<times> nat stream \<times> (error + reply)"
where
  "dashboard n m f d s rng =
     (case current_user d s of
        None \<Rightarrow> (d, rng, Inr unauthorized)
      | Some cu \<Rightarrow>
          if m = POST then
            (case generate_short_url n d rng of
               (Inl err, rng') \<Rightarrow> (d, rng', Inl err)
             | (Inr code, rng') \<Rightarrow>
                 (case add_URL d (f ''original_url'') code (id_User cu) of
                    Inl err \<Rightarrow> (d, rng', Inl err)
                  | Inr d' \<Rightarrow>
                      (d', rng',
                       Inr \<lparr>flashed = [''Short URL created successfully''],
                            response = redirect (url_for ''dashboard'')\<rparr>)))
          else
            (d, rng,
             Inr \<lparr>flashed = [],
                  response = Render_template ''dashboard.html''
                               (filter_by_user_id d (id_User cu))\<rparr>))"

text \<open>\<^verbatim>\<open>url.clicks += 1\<close> on the row that \<^verbatim>\<open>first_or_404\<close> returned.\<close>

fun increment_clicks :: "string \<Rightarrow> URL list \<Rightarrow> URL list" where
  "increment_clicks code [] = []"
| "increment_clicks code (r # rs) =
     (if short_url r = code then r\<lparr>clicks := clicks r + 1\<rparr> # rs
      else r # increment_clicks code rs)"

definition redirect_to_url :: "string \<Rightarrow> db \<Rightarrow> db \<times> (error + reply)" where
  "redirect_to_url code d =
     (case first (filter_by_short_url d code) of
        None \<Rightarrow> (d, Inl NotFound)
      | Some url \<Rightarrow>
          (d\<lparr>URL_rows := increment_clicks code (URL_rows d)\<rparr>,
           Inr \<lparr>flashed = [], response = redirect (original_url url)\<rparr>))"

definition logout :: "db \<Rightarrow> session \<Rightarrow> session \<times> (error + reply)" where
  "logout d s =
     (case current_user d s of
        None \<Rightarrow> (s, Inr unauthorized)
      | Some cu \<Rightarrow> (None, Inr \<lparr>flashed = [], response = redirect (url_for ''index'')\<rparr>))"

subsection \<open>The application as a transition system\<close>

datatype request =
    Req_index
  | Req_register http_method form
  | Req_login http_method form
  | Req_dashboard http_method form
  | Req_short string
  | Req_logout

text \<open>
  One request, served with stack depth \<open>n\<close> left for the generator: the database, the
  cookie and the random source before, and after, with the reply or the exception.
\<close>

fun handle ::
  "werkzeug \<Rightarrow> nat \<Rightarrow> request \<Rightarrow> db \<Rightarrow> session \<Rightarrow> nat stream \<Rightarrow>
     db \<times> session \<times> nat stream \<times> (error + reply)"
where
  "handle w n Req_index d s rng = (d, s, rng, Inr index)"
| "handle w n (Req_register m f) d s rng =
     (case register w m f d of (d', res) \<Rightarrow> (d', s, rng, res))"
| "handle w n (Req_login m f) d s rng =
     (case login w m f d s of (s', res) \<Rightarrow> (d, s', rng, res))"
| "handle w n (Req_dashboard m f) d s rng =
     (case dashboard n m f d s rng of (d', rng', res) \<Rightarrow> (d', s, rng', res))"
| "handle w n (Req_short code) d s rng =
     (case redirect_to_url code d of (d', res) \<Rightarrow> (d', s, rng, res))"
| "handle w n Req_logout d s rng =
     (case logout d s of (s', res) \<Rightarrow> (d, s', rng, res))"

text \<open>
  The databases the application can reach from the empty tables, by any requests with any
  cookies, any random source and any stack depth.
\<close>

inductive reachable :: "werkzeug \<Rightarrow> db \<Rightarrow> bool" for w :: werkzeug where
  init: "reachable w empty_db"
| step: "reachable w d \<Longrightarrow> handle w n req d s rng = (d', s', rng', res) \<Longrightarrow> reachable w d'"


subsection \<open>Notions used in the statements\<close>

text \<open>The test of line 40: a row with this short code exists.\<close>

definition taken :: "db \<Rightarrow> string \<Rightarrow> bool" where
  "taken d code = (first (filter_by_short_url d code) \<noteq> None)"

text \<open>The k-th candidate the generator draws from a random source (each takes 6 draws).\<close>

definition candidate :: "nat stream \<Rightarrow> nat \<Rightarrow> string" where
  "candidate rng k = fst (join_choices 6 characters (sdrop (6 * k) rng))"

text \<open>Example data: one user, one stored link with the code \<open>aaaaaa\<close>.\<close>

definition alice :: User where
  "alice = \<lparr>id_User = 1, email = ''a@x.org'', password = ''h1''\<rparr>"

definition link1 :: URL where
  "link1 = \<lparr>id_URL = 1, original_url = ''https://example.com'', short_url = ''aaaaaa'',
             clicks = 0, user_id = 1\<rparr>"

definition db1 :: db where
  "db1 = \<lparr>User_rows = [alice], URL_rows = [link1]\<rparr>"

text \<open>A random source whose first candidate is \<open>aaaaaa\<close> and whose second is \<open>bbbbbb\<close>.\<close>

definition rng_ab :: "nat stream" where
  "rng_ab = [0, 0, 0, 0, 0, 0] @- sconst 1"

text \<open>A random source whose first \<open>m\<close> candidates are \<open>aaaaaa\<close>, the later ones \<open>bbbbbb\<close>.\<close>

definition rng_collide :: "nat \<Rightarrow> nat stream" where
  "rng_collide m = replicate (6 * m) 0 @- sconst 1"

text \<open>The stack depth of the examples.\<close>

definition depth0 :: nat where
  "depth0 = 970"

text \<open>An instance of the two password functions, for the examples.\<close>

definition w0 :: werkzeug where
  "w0 = \<lparr>generate_password_hash =
            (\<lambda>p. case p of None \<Rightarrow> Inl HashError | Some x \<Rightarrow> Inr (''h'' @ x)),
          check_password_hash =
            (\<lambda>h p. case p of None \<Rightarrow> Inl HashError | Some x \<Rightarrow> Inr (h = ''h'' @ x))\<rparr>"

definition db0 :: db where
  "db0 = \<lparr>User_rows = [alice], URL_rows = []\<rparr>"

text \<open>The row a successful POST to the dashboard appends.\<close>

definition new_URL :: "db \<Rightarrow> string \<Rightarrow> string \<Rightarrow> int \<Rightarrow> URL" where
  "new_URL d u code uid =
     \<lparr>id_URL = next_id (map id_URL (URL_rows d)), original_url = u, short_url = code,
      clicks = 0, user_id = uid\<rparr>"

section \<open>Properties\<close>

subsection \<open>The generator\<close>

lemma join_choices_stake:
  "join_choices n seq rng = (map (\<lambda>r. seq ! (r mod length seq)) (stake n rng), sdrop n rng)"
  by (induction n arbitrary: rng) (simp_all add: random_choice_def)

lemma length_characters: "length characters = 62"
  by (simp add: characters_def ascii_letters_def ascii_lowercase_def ascii_uppercase_def digits_def)

lemma distinct_characters: "distinct characters"
  by (simp add: characters_def ascii_letters_def ascii_lowercase_def ascii_uppercase_def digits_def)

lemma characters_literal:
  "characters = ''abcdefghijklmnopqrstuvwxyzABCDEFGHIJKLMNOPQRSTUVWXYZ0123456789''"
  by (simp add: characters_def ascii_letters_def ascii_lowercase_def ascii_uppercase_def digits_def)

lemma generate_Suc:
  "generate_short_url (Suc n) d rng =
     (if taken d (candidate rng 0) then generate_short_url n d (sdrop 6 rng)
      else (Inr (candidate rng 0), sdrop 6 rng))"
  by (simp add: join_choices_stake candidate_def taken_def)

lemma candidate_sdrop: "candidate (sdrop 6 rng) k = candidate rng (Suc k)"
  by (simp add: candidate_def add.commute)

text \<open>The first free candidate is returned, if the stack is deep enough to reach it.\<close>

lemma generate_returns:
  "k < n \<Longrightarrow> (\<forall>j<k. taken d (candidate rng j)) \<Longrightarrow> \<not> taken d (candidate rng k) \<Longrightarrow>
   generate_short_url n d rng = (Inr (candidate rng k), sdrop (6 * Suc k) rng)"
proof (induction k arbitrary: n rng)
  case 0
  then obtain m where "n = Suc m" by (cases n) auto
  with 0 show ?case by (simp add: generate_Suc del: generate_short_url.simps)
next
  case (Suc k)
  then obtain m where n: "n = Suc m" and km: "k < m" by (cases n) auto
  have t0: "taken d (candidate rng 0)" using Suc.prems(2) by blast
  have "\<forall>j<k. taken d (candidate (sdrop 6 rng) j)"
    using Suc.prems(2) by (simp add: candidate_sdrop)
  moreover have "\<not> taken d (candidate (sdrop 6 rng) k)"
    using Suc.prems(3) by (simp add: candidate_sdrop)
  ultimately have "generate_short_url m d (sdrop 6 rng) =
      (Inr (candidate (sdrop 6 rng) k), sdrop (6 * Suc k) (sdrop 6 rng))"
    using km by (intro Suc.IH)
  then show ?case using t0 n
    by (simp add: generate_Suc candidate_sdrop add.commute del: generate_short_url.simps)
qed

text \<open>When every candidate the stack has room for collides, the recursion runs out of stack.\<close>

lemma generate_exhausted:
  "(\<forall>k<n. taken d (candidate rng k)) \<Longrightarrow>
   generate_short_url n d rng = (Inl RecursionError, sdrop (6 * n) rng)"
proof (induction n arbitrary: rng)
  case 0
  show ?case by simp
next
  case (Suc n)
  have t0: "taken d (candidate rng 0)" using Suc.prems by blast
  have "\<forall>k<n. taken d (candidate (sdrop 6 rng) k)"
    using Suc.prems by (simp add: candidate_sdrop)
  then have "generate_short_url n d (sdrop 6 rng) = (Inl RecursionError, sdrop (6 * n) (sdrop 6 rng))"
    by (rule Suc.IH)
  then show ?case using t0
    by (simp add: generate_Suc add.commute del: generate_short_url.simps)
qed

lemma first_free:
  assumes "\<exists>k<n. \<not> taken d (candidate rng k)"
  shows "\<exists>k<n. (\<forall>j<k. taken d (candidate rng j)) \<and> \<not> taken d (candidate rng k)"
proof -
  from assms have "\<exists>k. k < n \<and> \<not> taken d (candidate rng k)" by blast
  then obtain k where k: "k < n \<and> \<not> taken d (candidate rng k)"
    and least: "\<forall>j<k. \<not> (j < n \<and> \<not> taken d (candidate rng j))"
    using exists_least_iff[of "\<lambda>k. k < n \<and> \<not> taken d (candidate rng k)"] by blast
  have "\<forall>j<k. taken d (candidate rng j)"
  proof (intro allI impI)
    fix j assume "j < k"
    with k least show "taken d (candidate rng j)" by (meson less_trans)
  qed
  with k show ?thesis by blast
qed

lemma generate_Inr_D:
  assumes "generate_short_url n d rng = (Inr code, rng')"
  shows "\<exists>k<n. (\<forall>j<k. taken d (candidate rng j)) \<and> \<not> taken d (candidate rng k) \<and>
             code = candidate rng k \<and> rng' = sdrop (6 * Suc k) rng"
proof (cases "\<exists>k<n. \<not> taken d (candidate rng k)")
  case True
  from first_free[OF True] obtain k where k: "k < n" "\<forall>j<k. taken d (candidate rng j)"
    "\<not> taken d (candidate rng k)"
    by blast
  from generate_returns[OF k] assms have "code = candidate rng k" "rng' = sdrop (6 * Suc k) rng"
    by simp_all
  with k show ?thesis by blast
next
  case False
  then have "\<forall>k<n. taken d (candidate rng k)" by blast
  from generate_exhausted[OF this] assms show ?thesis by simp
qed

lemma generate_Inl_D:
  assumes "generate_short_url n d rng = (Inl e, rng')"
  shows "e = RecursionError \<and> (\<forall>k<n. taken d (candidate rng k)) \<and> rng' = sdrop (6 * n) rng"
proof (cases "\<exists>k<n. \<not> taken d (candidate rng k)")
  case True
  from first_free[OF True] obtain k where k: "k < n" "\<forall>j<k. taken d (candidate rng j)"
    "\<not> taken d (candidate rng k)"
    by blast
  from generate_returns[OF k] assms show ?thesis by simp
next
  case False
  then have all: "\<forall>k<n. taken d (candidate rng k)" by blast
  from generate_exhausted[OF all] assms all show ?thesis by simp
qed

lemma taken_iff: "taken d code \<longleftrightarrow> (\<exists>r \<in> set (URL_rows d). short_url r = code)"
proof -
  have "first xs \<noteq> None \<longleftrightarrow> xs \<noteq> []" for xs :: "URL list"
    by (cases xs) simp_all
  then show ?thesis
    by (auto simp: taken_def filter_by_short_url_def filter_empty_conv)
qed

lemma candidate_eq:
  "candidate rng k = map (\<lambda>r. characters ! (r mod 62)) (stake 6 (sdrop (6 * k) rng))"
  by (simp add: candidate_def join_choices_stake length_characters)

lemma length_candidate: "length (candidate rng k) = 6"
  by (simp add: candidate_eq)

lemma set_candidate: "set (candidate rng k) \<subseteq> set characters"
  by (auto simp: candidate_eq length_characters)

subsection \<open>The example random sources\<close>

lemma stake6_SCons: "stake 6 (a ## b ## c ## d ## e ## f ## s) = [a, b, c, d, e, f]"
  by (simp add: eval_nat_numeral)

lemma sdrop6_SCons: "sdrop 6 (a ## b ## c ## d ## e ## f ## s) = s"
  by (simp add: eval_nat_numeral)

lemma stake6_sconst: "stake 6 (sconst x) = [x, x, x, x, x, x]"
proof -
  have "sconst x = x ## x ## x ## x ## x ## x ## sconst x"
    by (metis id_apply siterate.code)
  then show ?thesis by (metis stake6_SCons)
qed

lemma sdrop_sconst: "sdrop n (sconst x) = sconst x"
  by simp

lemma candidate_rng_ab_0: "candidate rng_ab 0 = ''aaaaaa''"
  by (simp add: candidate_eq rng_ab_def characters_literal stake6_SCons)

lemma candidate_rng_ab_1: "candidate rng_ab (Suc 0) = ''bbbbbb''"
  by (simp add: candidate_eq rng_ab_def characters_literal sdrop6_SCons stake6_sconst
        del: stake_siterate)

lemma candidate_sconst0: "candidate (sconst 0) k = ''aaaaaa''"
  by (simp add: candidate_eq characters_literal stake6_sconst del: stake_siterate)

lemma candidate_sconst1: "candidate (sconst (Suc 0)) k = ''bbbbbb''"
  by (simp add: candidate_eq characters_literal stake6_sconst del: stake_siterate)

lemma sdrop_rng_collide:
  "k \<le> m \<Longrightarrow> sdrop (6 * k) (rng_collide m) = rng_collide (m - k)"
  by (simp add: rng_collide_def sdrop_shift diff_mult_distrib2)

lemma rng_collide_0: "rng_collide 0 = sconst 1"
  by (simp add: rng_collide_def)

lemma rng_collide_Suc: "rng_collide (Suc m) = 0 ## 0 ## 0 ## 0 ## 0 ## 0 ## rng_collide m"
proof -
  have "replicate (6 * Suc m) (0::nat) = [0, 0, 0, 0, 0, 0] @ replicate (6 * m) 0"
    by (simp add: eval_nat_numeral replicate_add[symmetric] del: replicate_add)
  then show ?thesis
    by (simp add: rng_collide_def shift_append del: replicate.simps)
qed

lemma candidate_rng_collide_0: "candidate (rng_collide (Suc m)) 0 = ''aaaaaa''"
  by (simp add: candidate_eq rng_collide_Suc characters_literal stake6_SCons)

lemma candidate_rng_collide:
  "candidate (rng_collide m) k = (if k < m then ''aaaaaa'' else ''bbbbbb'')"
proof (cases "k < m")
  case True
  then obtain i where "m - k = Suc i" by (cases "m - k") auto
  then have "sdrop (6 * k) (rng_collide m) = rng_collide (Suc i)"
    using True sdrop_rng_collide[of k m] by simp
  then have "candidate (rng_collide m) k = candidate (rng_collide (Suc i)) 0"
    by (simp add: candidate_def)
  with True show ?thesis by (simp add: candidate_rng_collide_0)
next
  case False
  then have "sdrop (6 * k) (rng_collide m) = sconst 1"
    by (simp add: rng_collide_def sdrop_shift)
  then have "candidate (rng_collide m) k = candidate (sconst 1) 0"
    by (simp add: candidate_def)
  with False show ?thesis by (simp add: candidate_sconst1)
qed

lemma taken_db1: "taken db1 code \<longleftrightarrow> code = ''aaaaaa''"
  by (auto simp: taken_iff db1_def link1_def)

lemma sdrop_rng_ab: "sdrop 12 rng_ab = sconst 1"
proof -
  have "sdrop 12 rng_ab = sdrop 6 (sdrop 6 rng_ab)" by simp
  then show ?thesis by (simp only: rng_ab_def shift.simps sdrop6_SCons sdrop_sconst)
qed

lemma generate_db1_rng_ab:
  "generate_short_url depth0 db1 rng_ab = (Inr ''bbbbbb'', sconst 1)"
proof -
  have n: "Suc 0 < depth0" by (simp add: depth0_def)
  have a: "\<forall>j<Suc 0. taken db1 (candidate rng_ab j)"
    by (simp add: taken_db1 candidate_rng_ab_0)
  have b: "\<not> taken db1 (candidate rng_ab (Suc 0))"
    by (simp add: taken_db1 candidate_rng_ab_1)
  show ?thesis
    using generate_returns[OF n a b] by (simp add: candidate_rng_ab_1 sdrop_rng_ab)
qed

lemma generate_db1_sconst0:
  "generate_short_url depth0 db1 (sconst 0) = (Inl RecursionError, sconst 0)"
  using generate_exhausted[of depth0 db1 "sconst 0"]
  by (simp add: candidate_sconst0 taken_db1)

lemma generate_db1_rng_collide:
  "generate_short_url depth0 db1 (rng_collide 500) = (Inr ''bbbbbb'', sconst 1)"
proof -
  have n: "500 < depth0" by (simp add: depth0_def)
  have a: "\<forall>j<500. taken db1 (candidate (rng_collide 500) j)"
    by (simp add: taken_db1 candidate_rng_collide)
  have b: "\<not> taken db1 (candidate (rng_collide 500) 500)"
    by (simp add: taken_db1 candidate_rng_collide)
  have "sdrop (6 * Suc 500) (rng_collide 500) = sconst 1"
    by (simp add: rng_collide_def sdrop_shift)
  then show ?thesis
    using generate_returns[OF n a b] by (simp add: candidate_rng_collide)
qed

subsection \<open>What the generator returns\<close>

text \<open>
  C2. Every code the generator returns has exactly 6 characters, each from the alphabet of
  62 symbols (the letters and the digits), and no row of the store has it when the
  generator checks; it is the first drawn candidate that no row has, every candidate
  before it having collided.
\<close>

theorem generate_short_url_code:
  assumes "generate_short_url n d rng = (Inr code, rng')"
  shows "length code = 6 \<and> set code \<subseteq> set characters \<and>
         length characters = 62 \<and> distinct characters \<and>
         characters = ''abcdefghijklmnopqrstuvwxyzABCDEFGHIJKLMNOPQRSTUVWXYZ0123456789'' \<and>
         first (filter_by_short_url d code) = None \<and>
         (\<forall>r \<in> set (URL_rows d). short_url r \<noteq> code) \<and>
         (\<exists>k. code = candidate rng k \<and> rng' = sdrop (6 * Suc k) rng \<and>
              (\<forall>j<k. taken d (candidate rng j)))"
proof -
  from generate_Inr_D[OF assms] obtain k where
    k: "\<forall>j<k. taken d (candidate rng j)" "\<not> taken d (candidate rng k)"
       "code = candidate rng k" "rng' = sdrop (6 * Suc k) rng"
    by (elim exE conjE)
  have "first (filter_by_short_url d code) = None"
    using k(2,3) by (simp add: taken_def)
  moreover have "\<forall>r \<in> set (URL_rows d). short_url r \<noteq> code"
    using k(2,3) by (auto simp: taken_iff)
  moreover have "\<exists>k. code = candidate rng k \<and> rng' = sdrop (6 * Suc k) rng \<and>
              (\<forall>j<k. taken d (candidate rng j))"
    using k by blast
  ultimately show ?thesis
    using k(3) length_candidate set_candidate length_characters distinct_characters
      characters_literal by simp
qed

text \<open>
  On the store holding \<open>aaaaaa\<close>, with a source that draws \<open>aaaaaa\<close> and then
  \<open>bbbbbb\<close>, the generator returns \<open>bbbbbb\<close>.
\<close>

theorem generate_short_url_code_witness:
  "generate_short_url depth0 db1 rng_ab = (Inr ''bbbbbb'', sconst 1) \<and>
   length ''bbbbbb'' = 6 \<and> set ''bbbbbb'' \<subseteq> set characters \<and>
   first (filter_by_short_url db1 ''bbbbbb'') = None \<and>
   map short_url (URL_rows db1) = [''aaaaaa''] \<and>
   taken db1 (candidate rng_ab 0)"
proof -
  have codes: "map short_url (URL_rows db1) = [''aaaaaa'']"
    by (simp add: db1_def link1_def)
  show ?thesis
    using generate_short_url_code[OF generate_db1_rng_ab] generate_db1_rng_ab codes
    by (simp add: taken_db1 candidate_rng_ab_0)
qed

text \<open>
  C4 as stated fails: the generator has no retry bound and no error of its own. With
  room for 970 activations it is still retrying after 500 collisions, and returns the
  code drawn then; and when every draw collides it fails because the recursion has used up
  the stack, with the interpreter's \<open>RecursionError\<close>.
\<close>

theorem generate_short_url_recursion_counterexample:
  "generate_short_url depth0 db1 (rng_collide 500) = (Inr ''bbbbbb'', sconst 1) \<and>
   generate_short_url depth0 db1 (sconst 0) = (Inl RecursionError, sconst 0)"
  using generate_db1_rng_collide generate_db1_sconst0 by (rule conjI)

text \<open>
  C4, amended. Generation terminates for every store, every random source and every stack
  depth, but the only bound on the retries is the interpreter's stack: the generator
  retries by calling itself on every collision, returns the first drawn candidate that no
  row has when fewer collisions precede it than the stack has room for activations, and
  otherwise fails with \<open>RecursionError\<close> (status 500).
\<close>

theorem generate_short_url_depth:
  "(\<forall>k. k < n \<and> (\<forall>j<k. taken d (candidate rng j)) \<and> \<not> taken d (candidate rng k) \<longrightarrow>
        generate_short_url n d rng = (Inr (candidate rng k), sdrop (6 * Suc k) rng)) \<and>
   ((\<forall>k<n. taken d (candidate rng k)) \<longrightarrow>
        generate_short_url n d rng = (Inl RecursionError, sdrop (6 * n) rng)) \<and>
   ((\<exists>k<n. \<not> taken d (candidate rng k)) \<longrightarrow>
        (\<exists>k<n. \<not> taken d (candidate rng k) \<and>
           generate_short_url n d rng = (Inr (candidate rng k), sdrop (6 * Suc k) rng))) \<and>
   http_status RecursionError = 500"
proof -
  have a: "generate_short_url n d rng = (Inr (candidate rng k), sdrop (6 * Suc k) rng)"
    if "k < n \<and> (\<forall>j<k. taken d (candidate rng j)) \<and> \<not> taken d (candidate rng k)" for k
    using that generate_returns[of k n d rng] by blast
  have b: "generate_short_url n d rng = (Inl RecursionError, sdrop (6 * n) rng)"
    if "\<forall>k<n. taken d (candidate rng k)"
    using that by (rule generate_exhausted)
  have c: "\<exists>k<n. \<not> taken d (candidate rng k) \<and>
           generate_short_url n d rng = (Inr (candidate rng k), sdrop (6 * Suc k) rng)"
    if "\<exists>k<n. \<not> taken d (candidate rng k)"
  proof -
    from first_free[OF that] obtain k where k: "k < n" "\<forall>j<k. taken d (candidate rng j)"
      "\<not> taken d (candidate rng k)"
      by blast
    from generate_returns[OF k] k show ?thesis by blast
  qed
  have e: "http_status RecursionError = 500" by simp
  show ?thesis
    by (rule conjI[OF allI[OF impI[OF a]] conjI[OF impI[OF b] conjI[OF impI[OF c] e]]])
qed

text \<open>One collision, then a free code; and a source on which every draw collides.\<close>

theorem generate_short_url_depth_witness:
  "Suc 0 < depth0 \<and> taken db1 (candidate rng_ab 0) \<and> \<not> taken db1 (candidate rng_ab (Suc 0)) \<and>
   generate_short_url depth0 db1 rng_ab = (Inr (candidate rng_ab (Suc 0)), sdrop 12 rng_ab) \<and>
   taken db1 (candidate (sconst 0) 969) \<and>
   generate_short_url depth0 db1 (sconst 0) = (Inl RecursionError, sdrop (6 * depth0) (sconst 0))"
proof -
  have n: "Suc 0 < depth0" by (simp add: depth0_def)
  have a: "\<forall>j<Suc 0. taken db1 (candidate rng_ab j)"
    by (simp add: taken_db1 candidate_rng_ab_0)
  have b: "\<not> taken db1 (candidate rng_ab (Suc 0))"
    by (simp add: taken_db1 candidate_rng_ab_1)
  have c: "\<forall>k<depth0. taken db1 (candidate (sconst 0) k)"
    by (simp add: taken_db1 candidate_sconst0)
  have r1: "generate_short_url depth0 db1 rng_ab =
      (Inr (candidate rng_ab (Suc 0)), sdrop (6 * Suc (Suc 0)) rng_ab)"
    using generate_short_url_depth[of depth0 db1 rng_ab] n a b by blast
  have r2: "generate_short_url depth0 db1 (sconst 0) =
      (Inl RecursionError, sdrop (6 * depth0) (sconst 0))"
    using generate_short_url_depth[of depth0 db1 "sconst 0"] c by blast
  show ?thesis
    using n a b r1 r2 by (simp add: taken_db1 candidate_sconst0)
qed

subsection \<open>The redirect handler\<close>

lemma first_filter_None: "first (filter P xs) = None \<longleftrightarrow> (\<forall>x \<in> set xs. \<not> P x)"
  by (induction xs) auto

lemma first_filter_index:
  "i < length xs \<Longrightarrow> P (xs ! i) \<Longrightarrow> \<forall>j<i. \<not> P (xs ! j) \<Longrightarrow> first (filter P xs) = Some (xs ! i)"
proof (induction xs arbitrary: i)
  case Nil
  then show ?case by simp
next
  case (Cons x xs)
  show ?case
  proof (cases i)
    case 0
    with Cons.prems show ?thesis by simp
  next
    case (Suc n)
    with Cons.prems have "\<not> P x" by auto
    moreover have "first (filter P xs) = Some (xs ! n)"
      using Cons.prems Suc by (intro Cons.IH) auto
    ultimately show ?thesis using Suc by simp
  qed
qed

lemma increment_clicks_index:
  "i < length rs \<Longrightarrow> short_url (rs ! i) = code \<Longrightarrow> \<forall>j<i. short_url (rs ! j) \<noteq> code \<Longrightarrow>
   increment_clicks code rs = rs[i := (rs ! i)\<lparr>clicks := clicks (rs ! i) + 1\<rparr>]"
proof (induction rs arbitrary: i)
  case Nil
  then show ?case by simp
next
  case (Cons r rs)
  show ?case
  proof (cases i)
    case 0
    with Cons.prems show ?thesis by simp
  next
    case (Suc n)
    with Cons.prems have "short_url r \<noteq> code" by auto
    moreover have "increment_clicks code rs = rs[n := (rs ! n)\<lparr>clicks := clicks (rs ! n) + 1\<rparr>]"
      using Cons.prems Suc by (intro Cons.IH) auto
    ultimately show ?thesis using Suc by simp
  qed
qed

lemma distinct_first_index:
  assumes "distinct (map f xs)" "i < length xs" "j < i"
  shows "f (xs ! j) \<noteq> f (xs ! i)"
proof -
  have "map f xs ! j \<noteq> map f xs ! i"
    using assms by (auto simp: distinct_conv_nth)
  then show ?thesis using assms by simp
qed

text \<open>
  C1. On a store where no row has the code, \<open>redirect_to_url\<close> raises \<open>NotFound\<close>
  (status 404) and returns the store as it was. On a store with a row of that code (the
  only one when the codes are distinct, the first one otherwise) it adds 1 to the clicks
  of that row, changes nothing else, and redirects with status 302 to the
  \<open>original_url\<close> of the row.
\<close>

theorem redirect_to_url_resolve:
  "((\<forall>r \<in> set (URL_rows d). short_url r \<noteq> code) \<longrightarrow>
      redirect_to_url code d = (d, Inl NotFound) \<and> http_status NotFound = 404) \<and>
   (\<forall>i. i < length (URL_rows d) \<and> short_url (URL_rows d ! i) = code \<and>
        (distinct (map short_url (URL_rows d)) \<or> (\<forall>j<i. short_url (URL_rows d ! j) \<noteq> code)) \<longrightarrow>
      redirect_to_url code d =
        (d\<lparr>URL_rows := (URL_rows d)[i := (URL_rows d ! i)\<lparr>clicks := clicks (URL_rows d ! i) + 1\<rparr>]\<rparr>,
         Inr \<lparr>flashed = [], response = Redirect 302 (original_url (URL_rows d ! i))\<rparr>))"
proof -
  have absent: "redirect_to_url code d = (d, Inl NotFound) \<and> http_status NotFound = 404"
    if "\<forall>r \<in> set (URL_rows d). short_url r \<noteq> code"
  proof -
    have "first (filter_by_short_url d code) = None"
      using that by (simp add: filter_by_short_url_def first_filter_None)
    then show ?thesis by (simp add: redirect_to_url_def)
  qed
  have present: "redirect_to_url code d =
        (d\<lparr>URL_rows := (URL_rows d)[i := (URL_rows d ! i)\<lparr>clicks := clicks (URL_rows d ! i) + 1\<rparr>]\<rparr>,
         Inr \<lparr>flashed = [], response = Redirect 302 (original_url (URL_rows d ! i))\<rparr>)"
    if a: "i < length (URL_rows d) \<and> short_url (URL_rows d ! i) = code \<and>
        (distinct (map short_url (URL_rows d)) \<or> (\<forall>j<i. short_url (URL_rows d ! j) \<noteq> code))"
    for i
  proof -
    have before: "\<forall>j<i. short_url (URL_rows d ! j) \<noteq> code"
    proof (intro allI impI)
      fix j assume ji: "j < i"
      from a have "distinct (map short_url (URL_rows d)) \<or> (\<forall>j<i. short_url (URL_rows d ! j) \<noteq> code)"
        by (elim conjE)
      then show "short_url (URL_rows d ! j) \<noteq> code"
      proof
        assume "distinct (map short_url (URL_rows d))"
        then have "short_url (URL_rows d ! j) \<noteq> short_url (URL_rows d ! i)"
          using a ji by (intro distinct_first_index) simp_all
        then show ?thesis using a by simp
      next
        assume "\<forall>j<i. short_url (URL_rows d ! j) \<noteq> code"
        then show ?thesis using ji by simp
      qed
    qed
    have "first (filter_by_short_url d code) = Some (URL_rows d ! i)"
      unfolding filter_by_short_url_def using a before by (intro first_filter_index) auto
    moreover have "increment_clicks code (URL_rows d) =
        (URL_rows d)[i := (URL_rows d ! i)\<lparr>clicks := clicks (URL_rows d ! i) + 1\<rparr>]"
      using a before by (intro increment_clicks_index) auto
    ultimately show ?thesis
      by (simp add: redirect_to_url_def redirect_def)
  qed
  show ?thesis
    by (rule conjI[OF impI[OF absent] allI[OF impI[OF present]]])
qed

text \<open>An unknown code and the stored code, on the example store.\<close>

theorem redirect_to_url_resolve_witness:
  "redirect_to_url ''zzzzzz'' db1 = (db1, Inl NotFound) \<and>
   redirect_to_url ''aaaaaa'' db1 =
     (db1\<lparr>URL_rows := [link1\<lparr>clicks := 1\<rparr>]\<rparr>,
      Inr \<lparr>flashed = [], response = Redirect 302 ''https://example.com''\<rparr>)"
proof -
  have rows: "URL_rows db1 = [link1]" by (simp add: db1_def)
  have l: "short_url link1 = ''aaaaaa''" "clicks link1 = 0"
    "original_url link1 = ''https://example.com''"
    by (simp_all add: link1_def)
  have "redirect_to_url ''zzzzzz'' db1 = (db1, Inl NotFound)"
    using redirect_to_url_resolve[of db1 "''zzzzzz''", THEN conjunct1]
    by (simp add: rows l)
  moreover have "redirect_to_url ''aaaaaa'' db1 =
     (db1\<lparr>URL_rows := [link1\<lparr>clicks := 1\<rparr>]\<rparr>,
      Inr \<lparr>flashed = [], response = Redirect 302 ''https://example.com''\<rparr>)"
    using redirect_to_url_resolve[of db1 "''aaaaaa''", THEN conjunct2, rule_format, of 0]
    by (simp add: rows l)
  ultimately show ?thesis by simp
qed

subsection \<open>Registration\<close>

lemma first_filter_Some_ex: "\<exists>x \<in> set xs. P x \<Longrightarrow> \<exists>y. first (filter P xs) = Some y"
  by (induction xs) auto

text \<open>
  C8. A POST to \<open>register\<close> with an email that a user row already has flashes a message,
  redirects back to the form, and returns the database as it was: no row is added and
  none is changed.
\<close>

theorem register_duplicate_email:
  assumes "f ''email'' = Some e" and "\<exists>u \<in> set (User_rows d). email u = e"
  shows "register w POST f d =
           (d, Inr \<lparr>flashed = [''Email address already exists''],
                    response = Redirect 302 ''/register''\<rparr>)"
proof -
  from assms(2) obtain y where "first (filter (\<lambda>u. email u = e) (User_rows d)) = Some y"
    using first_filter_Some_ex[of "User_rows d" "\<lambda>u. email u = e"] by blast
  then have "first (filter_by_email d (f ''email'')) = Some y"
    using assms(1) by (simp add: filter_by_email_def)
  then show ?thesis
    by (simp add: register_def redirect_def)
qed

text \<open>Registering the email of the stored user again.\<close>

theorem register_duplicate_email_witness:
  "register w0 POST [''email'' \<mapsto> ''a@x.org'', ''password'' \<mapsto> ''2''] db1 =
     (db1, Inr \<lparr>flashed = [''Email address already exists''],
               response = Redirect 302 ''/register''\<rparr>)"
proof -
  have "\<exists>u \<in> set (User_rows db1). email u = ''a@x.org''"
    by (simp add: db1_def alice_def)
  then show ?thesis
    by (intro register_duplicate_email) simp_all
qed

subsection \<open>Creating a short URL\<close>

lemma not_taken_filter: "\<not> taken d code \<Longrightarrow> filter_by_short_url d code = []"
  by (simp add: taken_iff filter_by_short_url_def filter_empty_conv)

lemma dashboard_POST:
  assumes "current_user d s = Some cu" and "generate_short_url n d rng = (Inr code, rng')"
  shows "dashboard n POST f d s rng =
     (case f ''original_url'' of
        None \<Rightarrow> (d, rng', Inl IntegrityError)
      | Some u \<Rightarrow>
          (d\<lparr>URL_rows := URL_rows d @ [new_URL d u code (id_User cu)]\<rparr>, rng',
           Inr \<lparr>flashed = [''Short URL created successfully''],
                response = Redirect 302 ''/dashboard''\<rparr>))"
proof -
  from generate_Inr_D[OF assms(2)] have "\<not> taken d code" by auto
  then have "filter_by_short_url d code = []" by (rule not_taken_filter)
  then show ?thesis
    using assms
    by (simp add: dashboard_def add_URL_def new_URL_def redirect_def split: option.splits)
qed

lemma dashboard_POST_exhausted:
  assumes "current_user d s = Some cu" and "\<forall>k<n. taken d (candidate rng k)"
  shows "dashboard n POST f d s rng = (d, sdrop (6 * n) rng, Inl RecursionError)"
  using assms(1) generate_exhausted[OF assms(2)] by (simp add: dashboard_def)

lemma current_user_db1: "current_user db1 (Some 1) = Some alice"
  by (simp add: current_user_def load_user_def db1_def alice_def)

lemma current_user_db0: "current_user db0 (Some 1) = Some alice"
  by (simp add: current_user_def load_user_def db0_def alice_def)

lemma next_id_db1: "next_id [id_URL link1] = 2"
  by (simp add: next_id_def link1_def)

lemma dashboard_db1_sconst0:
  "dashboard depth0 POST f db1 (Some 1) (sconst 0) = (db1, sconst 0, Inl RecursionError)"
proof -
  have "\<forall>k<depth0. taken db1 (candidate (sconst 0) k)"
    by (simp add: taken_db1 candidate_sconst0)
  from dashboard_POST_exhausted[OF current_user_db1 this] show ?thesis by simp
qed

text \<open>
  C10 as stated fails: an empty \<open>original_url\<close> field is accepted, and a row with the
  empty string is stored.
\<close>

theorem dashboard_empty_url_counterexample:
  "dashboard depth0 POST [''original_url'' \<mapsto> ''''] db1 (Some 1) rng_ab =
     (db1\<lparr>URL_rows := [link1, \<lparr>id_URL = 2, original_url = '''', short_url = ''bbbbbb'',
                              clicks = 0, user_id = 1\<rparr>]\<rparr>,
      sconst 1,
      Inr \<lparr>flashed = [''Short URL created successfully''],
           response = Redirect 302 ''/dashboard''\<rparr>)"
proof -
  have rows: "URL_rows db1 = [link1]" by (simp add: db1_def)
  have uid: "id_User alice = 1" by (simp add: alice_def)
  show ?thesis
    using dashboard_POST[OF current_user_db1 generate_db1_rng_ab,
        of "[''original_url'' \<mapsto> '''']"]
    by (simp add: new_URL_def next_id_db1 rows uid)
qed

text \<open>
  C10, amended. The handler does not validate the field. For a logged-in user, once the
  generator has found a free code (after \<open>k\<close> collisions, \<open>k\<close> below the stack depth), a
  POST whose form has no \<open>original_url\<close> fails with the store's \<open>IntegrityError\<close> (the
  column is not null) and stores nothing, and a POST whose form has the field stores a row
  with that string, whatever it is. When every candidate the stack has room for collides,
  the POST fails with \<open>RecursionError\<close> and stores nothing, whatever the form.
\<close>

theorem dashboard_post_original_url:
  assumes "current_user d s = Some cu"
  shows "(\<forall>k. k < n \<and> (\<forall>j<k. taken d (candidate rng j)) \<and> \<not> taken d (candidate rng k) \<longrightarrow>
            (f ''original_url'' = None \<longrightarrow>
               dashboard n POST f d s rng = (d, sdrop (6 * Suc k) rng, Inl IntegrityError)) \<and>
            (\<forall>u. f ''original_url'' = Some u \<longrightarrow>
               dashboard n POST f d s rng =
                 (d\<lparr>URL_rows := URL_rows d @ [new_URL d u (candidate rng k) (id_User cu)]\<rparr>,
                  sdrop (6 * Suc k) rng,
                  Inr \<lparr>flashed = [''Short URL created successfully''],
                       response = Redirect 302 ''/dashboard''\<rparr>))) \<and>
         ((\<forall>k<n. taken d (candidate rng k)) \<longrightarrow>
            dashboard n POST f d s rng = (d, sdrop (6 * n) rng, Inl RecursionError))"
proof -
  have found: "(f ''original_url'' = None \<longrightarrow>
               dashboard n POST f d s rng = (d, sdrop (6 * Suc k) rng, Inl IntegrityError)) \<and>
            (\<forall>u. f ''original_url'' = Some u \<longrightarrow>
               dashboard n POST f d s rng =
                 (d\<lparr>URL_rows := URL_rows d @ [new_URL d u (candidate rng k) (id_User cu)]\<rparr>,
                  sdrop (6 * Suc k) rng,
                  Inr \<lparr>flashed = [''Short URL created successfully''],
                       response = Redirect 302 ''/dashboard''\<rparr>))"
    if k: "k < n \<and> (\<forall>j<k. taken d (candidate rng j)) \<and> \<not> taken d (candidate rng k)" for k
  proof -
    have "generate_short_url n d rng = (Inr (candidate rng k), sdrop (6 * Suc k) rng)"
      using k generate_returns[of k n d rng] by blast
    from dashboard_POST[OF assms this, of f] show ?thesis by simp
  qed
  have exhausted: "dashboard n POST f d s rng = (d, sdrop (6 * n) rng, Inl RecursionError)"
    if "\<forall>k<n. taken d (candidate rng k)"
    using assms that by (rule dashboard_POST_exhausted)
  show ?thesis
    by (rule conjI[OF allI[OF impI[OF found]] impI[OF exhausted]])
qed

text \<open>
  The same request without the field, with a string that is no URL, and on a source on
  which every draw collides.
\<close>

theorem dashboard_post_original_url_witness:
  "Suc 0 < depth0 \<and> taken db1 (candidate rng_ab 0) \<and> \<not> taken db1 (candidate rng_ab (Suc 0)) \<and>
   dashboard depth0 POST Map.empty db1 (Some 1) rng_ab = (db1, sconst 1, Inl IntegrityError) \<and>
   dashboard depth0 POST [''original_url'' \<mapsto> ''ftp''] db1 (Some 1) rng_ab =
     (db1\<lparr>URL_rows := URL_rows db1 @ [new_URL db1 ''ftp'' ''bbbbbb'' 1]\<rparr>, sconst 1,
      Inr \<lparr>flashed = [''Short URL created successfully''],
           response = Redirect 302 ''/dashboard''\<rparr>) \<and>
   dashboard depth0 POST [''original_url'' \<mapsto> ''ftp''] db1 (Some 1) (sconst 0) =
     (db1, sconst 0, Inl RecursionError)"
proof -
  have n: "Suc 0 < depth0" by (simp add: depth0_def)
  have t: "\<forall>j<Suc 0. taken db1 (candidate rng_ab j)"
    by (simp add: taken_db1 candidate_rng_ab_0)
  have free: "\<not> taken db1 (candidate rng_ab (Suc 0))"
    by (simp add: taken_db1 candidate_rng_ab_1)
  have all: "\<forall>k<depth0. taken db1 (candidate (sconst 0) k)"
    by (simp add: taken_db1 candidate_sconst0)
  have uid: "id_User alice = 1" by (simp add: alice_def)
  have k: "Suc 0 < depth0 \<and> (\<forall>j<Suc 0. taken db1 (candidate rng_ab j)) \<and>
      \<not> taken db1 (candidate rng_ab (Suc 0))"
    using n t free by blast
  have a: "dashboard depth0 POST Map.empty db1 (Some 1) rng_ab =
      (db1, sconst 1, Inl IntegrityError)"
    using dashboard_post_original_url[OF current_user_db1, of depth0 rng_ab Map.empty,
        THEN conjunct1, rule_format, OF k, THEN conjunct1]
    by (simp add: sdrop_rng_ab)
  have b: "dashboard depth0 POST [''original_url'' \<mapsto> ''ftp''] db1 (Some 1) rng_ab =
     (db1\<lparr>URL_rows := URL_rows db1 @ [new_URL db1 ''ftp'' ''bbbbbb'' 1]\<rparr>, sconst 1,
      Inr \<lparr>flashed = [''Short URL created successfully''],
           response = Redirect 302 ''/dashboard''\<rparr>)"
    using dashboard_post_original_url[OF current_user_db1, of depth0 rng_ab
        "[''original_url'' \<mapsto> ''ftp'']", THEN conjunct1, rule_format, OF k, THEN conjunct2,
        rule_format, of "''ftp''"]
    by (simp add: sdrop_rng_ab candidate_rng_ab_1 uid)
  have c: "dashboard depth0 POST [''original_url'' \<mapsto> ''ftp''] db1 (Some 1) (sconst 0) =
     (db1, sconst 0, Inl RecursionError)"
    using dashboard_post_original_url[OF current_user_db1, of depth0 "sconst 0"
        "[''original_url'' \<mapsto> ''ftp'']", THEN conjunct2] all
    by simp
  show ?thesis
    using n a b c by (simp add: taken_db1 candidate_rng_ab_0 candidate_rng_ab_1)
qed

subsection \<open>Create, then resolve\<close>

lemma first_filter_snoc:
  "\<forall>x \<in> set xs. \<not> P x \<Longrightarrow> P y \<Longrightarrow> first (filter P (xs @ [y])) = Some y"
  by (induction xs) auto

lemma increment_clicks_snoc:
  "\<forall>x \<in> set rs. short_url x \<noteq> code \<Longrightarrow> short_url r = code \<Longrightarrow>
   increment_clicks code (rs @ [r]) = rs @ [r\<lparr>clicks := clicks r + 1\<rparr>]"
  by (induction rs) auto

lemma redirect_to_new_URL:
  assumes "\<not> taken d code"
  shows "redirect_to_url code (d\<lparr>URL_rows := URL_rows d @ [new_URL d u code uid]\<rparr>) =
           (d\<lparr>URL_rows := URL_rows d @ [(new_URL d u code uid)\<lparr>clicks := 1\<rparr>]\<rparr>,
            Inr \<lparr>flashed = [], response = Redirect 302 u\<rparr>)"
proof -
  have none: "\<forall>x \<in> set (URL_rows d). short_url x \<noteq> code"
    using assms by (auto simp: taken_iff)
  have code: "short_url (new_URL d u code uid) = code"
    by (simp add: new_URL_def)
  have "first (filter (\<lambda>r. short_url r = code) (URL_rows d @ [new_URL d u code uid])) =
          Some (new_URL d u code uid)"
    using none code by (intro first_filter_snoc) auto
  moreover have "increment_clicks code (URL_rows d @ [new_URL d u code uid]) =
      URL_rows d @ [(new_URL d u code uid)\<lparr>clicks := clicks (new_URL d u code uid) + 1\<rparr>]"
    using none code by (rule increment_clicks_snoc)
  moreover have "clicks (new_URL d u code uid) = 0" "original_url (new_URL d u code uid) = u"
    by (simp_all add: new_URL_def)
  ultimately show ?thesis
    by (simp add: redirect_to_url_def filter_by_short_url_def redirect_def)
qed

text \<open>
  C6 as stated fails: creating does not always yield a record. When every candidate the
  stack has room for collides, the POST of a logged-in user with a URL ends in
  \<open>RecursionError\<close> and the store is as it was.
\<close>

theorem create_exhausted_counterexample:
  "dashboard depth0 POST [''original_url'' \<mapsto> ''https://example.com''] db1 (Some 1) (sconst 0) =
     (db1, sconst 0, Inl RecursionError)"
  by (rule dashboard_db1_sconst0)

text \<open>
  C6, amended. When a logged-in user posts a URL and the generator draws a code that no
  row has before the stack is exhausted, \<open>dashboard\<close> appends one row: its clicks are 0,
  its \<open>original_url\<close> is the posted one, its \<open>user_id\<close> is the id of the user, and its
  code has 6 characters of the alphabet and is the code of no row stored before. Resolving
  that code right afterwards redirects to the posted URL and leaves the clicks of the new
  row at 1. When every candidate the stack has room for collides, the POST fails with
  \<open>RecursionError\<close> and stores nothing.
\<close>

theorem create_then_resolve:
  assumes "current_user d s = Some cu" and "f ''original_url'' = Some u"
  shows "((\<exists>k<n. \<not> taken d (candidate rng k)) \<longrightarrow>
     (\<exists>code rng' new.
        dashboard n POST f d s rng =
          (d\<lparr>URL_rows := URL_rows d @ [new]\<rparr>, rng',
           Inr \<lparr>flashed = [''Short URL created successfully''],
                response = Redirect 302 ''/dashboard''\<rparr>) \<and>
        clicks new = 0 \<and> original_url new = u \<and> user_id new = id_User cu \<and>
        short_url new = code \<and> length code = 6 \<and> set code \<subseteq> set characters \<and>
        (\<forall>r \<in> set (URL_rows d). short_url r \<noteq> code) \<and>
        redirect_to_url code (d\<lparr>URL_rows := URL_rows d @ [new]\<rparr>) =
          (d\<lparr>URL_rows := URL_rows d @ [new\<lparr>clicks := 1\<rparr>]\<rparr>,
           Inr \<lparr>flashed = [], response = Redirect 302 u\<rparr>))) \<and>
    ((\<forall>k<n. taken d (candidate rng k)) \<longrightarrow>
       dashboard n POST f d s rng = (d, sdrop (6 * n) rng, Inl RecursionError))"
proof -
  have created: "\<exists>code rng' new.
        dashboard n POST f d s rng =
          (d\<lparr>URL_rows := URL_rows d @ [new]\<rparr>, rng',
           Inr \<lparr>flashed = [''Short URL created successfully''],
                response = Redirect 302 ''/dashboard''\<rparr>) \<and>
        clicks new = 0 \<and> original_url new = u \<and> user_id new = id_User cu \<and>
        short_url new = code \<and> length code = 6 \<and> set code \<subseteq> set characters \<and>
        (\<forall>r \<in> set (URL_rows d). short_url r \<noteq> code) \<and>
        redirect_to_url code (d\<lparr>URL_rows := URL_rows d @ [new]\<rparr>) =
          (d\<lparr>URL_rows := URL_rows d @ [new\<lparr>clicks := 1\<rparr>]\<rparr>,
           Inr \<lparr>flashed = [], response = Redirect 302 u\<rparr>)"
    if ex: "\<exists>k<n. \<not> taken d (candidate rng k)"
  proof -
    from first_free[OF ex] obtain k where k: "k < n" "\<forall>j<k. taken d (candidate rng j)"
      "\<not> taken d (candidate rng k)"
      by blast
    have g: "generate_short_url n d rng = (Inr (candidate rng k), sdrop (6 * Suc k) rng)"
      using k by (rule generate_returns)
    define code where "code = candidate rng k"
    define new where "new = new_URL d u code (id_User cu)"
    have post: "dashboard n POST f d s rng =
          (d\<lparr>URL_rows := URL_rows d @ [new]\<rparr>, sdrop (6 * Suc k) rng,
           Inr \<lparr>flashed = [''Short URL created successfully''],
                response = Redirect 302 ''/dashboard''\<rparr>)"
      using dashboard_POST[OF assms(1) g, of f] assms(2) by (simp add: new_def code_def)
    have fields: "clicks new = 0" "original_url new = u" "user_id new = id_User cu"
      "short_url new = code"
      by (simp_all add: new_def new_URL_def)
    have shape: "length code = 6" "set code \<subseteq> set characters"
      by (simp_all add: code_def length_candidate set_candidate)
    have fresh: "\<forall>r \<in> set (URL_rows d). short_url r \<noteq> code"
      using k(3) by (auto simp: taken_iff code_def)
    have resolve: "redirect_to_url code (d\<lparr>URL_rows := URL_rows d @ [new]\<rparr>) =
          (d\<lparr>URL_rows := URL_rows d @ [new\<lparr>clicks := 1\<rparr>]\<rparr>,
           Inr \<lparr>flashed = [], response = Redirect 302 u\<rparr>)"
      unfolding new_def using k(3)[folded code_def] by (rule redirect_to_new_URL)
    show ?thesis
      using post fields shape fresh resolve by blast
  qed
  have exhausted: "dashboard n POST f d s rng = (d, sdrop (6 * n) rng, Inl RecursionError)"
    if "\<forall>k<n. taken d (candidate rng k)"
    using assms(1) that by (rule dashboard_POST_exhausted)
  show ?thesis
    by (rule conjI[OF impI[OF created] impI[OF exhausted]])
qed

text \<open>
  Alice posts \<open>https://example.com\<close> on the empty table of links and resolves the code;
  on the store that holds \<open>aaaaaa\<close> the same source only collides.
\<close>

theorem create_then_resolve_witness:
  "0 < depth0 \<and> \<not> taken db0 (candidate (sconst 0) 0) \<and>
   dashboard depth0 POST [''original_url'' \<mapsto> ''https://example.com''] db0 (Some 1) (sconst 0) =
     (db1, sconst 0,
      Inr \<lparr>flashed = [''Short URL created successfully''],
           response = Redirect 302 ''/dashboard''\<rparr>) \<and>
   redirect_to_url ''aaaaaa'' db1 =
     (db1\<lparr>URL_rows := [link1\<lparr>clicks := 1\<rparr>]\<rparr>,
      Inr \<lparr>flashed = [], response = Redirect 302 ''https://example.com''\<rparr>) \<and>
   taken db1 (candidate (sconst 0) 0) \<and>
   dashboard depth0 POST [''original_url'' \<mapsto> ''https://example.com''] db1 (Some 1) (sconst 0) =
     (db1, sdrop (6 * depth0) (sconst 0), Inl RecursionError)"
proof -
  have n: "0 < depth0" by (simp add: depth0_def)
  have free: "\<not> taken db0 (candidate (sconst 0) 0)"
    by (simp add: taken_iff db0_def)
  have ex: "\<exists>k<depth0. \<not> taken db0 (candidate (sconst 0) k)"
    using n free by blast
  have all: "\<forall>k<depth0. taken db1 (candidate (sconst 0) k)"
    by (simp add: taken_db1 candidate_sconst0)
  have g: "generate_short_url depth0 db0 (sconst 0) = (Inr ''aaaaaa'', sconst 0)"
    using generate_returns[of 0 depth0 db0 "sconst 0"] n free by (simp add: candidate_sconst0)
  from create_then_resolve[OF current_user_db0, of "[''original_url'' \<mapsto> ''https://example.com'']"
      "''https://example.com''" depth0 "sconst 0", THEN conjunct1, rule_format, OF _ ex]
  obtain code rng' new where
    r: "dashboard depth0 POST [''original_url'' \<mapsto> ''https://example.com''] db0 (Some 1) (sconst 0) =
        (db0\<lparr>URL_rows := URL_rows db0 @ [new]\<rparr>, rng',
         Inr \<lparr>flashed = [''Short URL created successfully''],
              response = Redirect 302 ''/dashboard''\<rparr>)"
      "redirect_to_url code (db0\<lparr>URL_rows := URL_rows db0 @ [new]\<rparr>) =
        (db0\<lparr>URL_rows := URL_rows db0 @ [new\<lparr>clicks := 1\<rparr>]\<rparr>,
         Inr \<lparr>flashed = [], response = Redirect 302 ''https://example.com''\<rparr>)"
      "short_url new = code"
    by auto
  have d: "dashboard depth0 POST [''original_url'' \<mapsto> ''https://example.com''] db0 (Some 1) (sconst 0) =
     (db0\<lparr>URL_rows := URL_rows db0 @ [new_URL db0 ''https://example.com'' ''aaaaaa'' 1]\<rparr>,
      sconst 0,
      Inr \<lparr>flashed = [''Short URL created successfully''],
           response = Redirect 302 ''/dashboard''\<rparr>)"
    using dashboard_POST[OF current_user_db0 g, of "[''original_url'' \<mapsto> ''https://example.com'']"]
    by (simp add: alice_def)
  have nw: "new_URL db0 ''https://example.com'' ''aaaaaa'' 1 = link1"
    by (simp add: new_URL_def link1_def db0_def next_id_def)
  have e: "db0\<lparr>URL_rows := URL_rows db0 @ [link1]\<rparr> = db1"
    by (simp add: db0_def db1_def)
  from r(1) d nw have eq: "db0\<lparr>URL_rows := URL_rows db0 @ [new]\<rparr> =
      db0\<lparr>URL_rows := URL_rows db0 @ [link1]\<rparr>" and rng': "rng' = sconst 0"
    by simp_all
  from arg_cong[OF eq, of URL_rows] have new: "new = link1" by simp
  with r e have code: "code = ''aaaaaa''" by (simp add: link1_def)
  have created: "dashboard depth0 POST [''original_url'' \<mapsto> ''https://example.com''] db0 (Some 1)
      (sconst 0) =
     (db1, sconst 0,
      Inr \<lparr>flashed = [''Short URL created successfully''],
           response = Redirect 302 ''/dashboard''\<rparr>)"
    using r(1) new rng' e by simp
  have resolved: "redirect_to_url ''aaaaaa'' db1 =
     (db1\<lparr>URL_rows := [link1\<lparr>clicks := 1\<rparr>]\<rparr>,
      Inr \<lparr>flashed = [], response = Redirect 302 ''https://example.com''\<rparr>)"
    using r(2) new code e by (simp add: db0_def db1_def)
  have failed: "dashboard depth0 POST [''original_url'' \<mapsto> ''https://example.com''] db1 (Some 1)
      (sconst 0) =
     (db1, sdrop (6 * depth0) (sconst 0), Inl RecursionError)"
    using create_then_resolve[OF current_user_db1, of "[''original_url'' \<mapsto> ''https://example.com'']"
      "''https://example.com''" depth0 "sconst 0", THEN conjunct2] all
    by simp
  have t: "taken db1 (candidate (sconst 0) 0)"
    by (simp add: taken_db1 candidate_sconst0)
  show ?thesis
    using n free created resolved t failed by blast
qed

subsection \<open>What one request does to the table of links\<close>

lemma register_URL_rows: "register w m f d = (d', res) \<Longrightarrow> URL_rows d' = URL_rows d"
  by (auto simp: register_def add_User_def Let_def split: if_splits sum.splits option.splits)

lemma add_URL_Inr:
  "add_URL d ourl code uid = Inr d' \<Longrightarrow>
   \<exists>u. ourl = Some u \<and> \<not> taken d code \<and> d' = d\<lparr>URL_rows := URL_rows d @ [new_URL d u code uid]\<rparr>"
  by (auto simp: add_URL_def new_URL_def taken_iff filter_by_short_url_def filter_empty_conv
      split: option.splits if_splits)

lemma add_URL_taken: "taken d code \<Longrightarrow> add_URL d ourl code uid = Inl IntegrityError"
  by (auto simp: add_URL_def taken_iff filter_by_short_url_def filter_empty_conv
      split: option.splits)

lemma dashboard_URL_rows:
  assumes "dashboard n m f d s rng = (d', rng', res)"
  shows "URL_rows d' = URL_rows d \<or>
         (\<exists>u code uid. \<not> taken d code \<and> URL_rows d' = URL_rows d @ [new_URL d u code uid])"
proof (cases "current_user d s")
  case None
  with assms show ?thesis by (simp add: dashboard_def)
next
  case (Some cu)
  show ?thesis
  proof (cases "m = POST")
    case False
    with assms Some show ?thesis by (simp add: dashboard_def)
  next
    case True
    obtain g r where g: "generate_short_url n d rng = (g, r)"
      by (cases "generate_short_url n d rng")
    show ?thesis
    proof (cases g)
      case (Inl e)
      with assms Some True g show ?thesis by (simp add: dashboard_def)
    next
      case (Inr code)
      show ?thesis
      proof (cases "add_URL d (f ''original_url'') code (id_User cu)")
        case (Inl e)
        with assms Some True g Inr show ?thesis by (simp add: dashboard_def)
      next
        case ok: (Inr d2)
        with assms Some True g Inr have "d' = d2" by (simp add: dashboard_def)
        with add_URL_Inr[OF ok] obtain u where
          "\<not> taken d code" "URL_rows d' = URL_rows d @ [new_URL d u code (id_User cu)]"
          by auto
        then show ?thesis by blast
      qed
    qed
  qed
qed

lemma redirect_to_url_URL_rows:
  "redirect_to_url code d = (d', res) \<Longrightarrow>
   URL_rows d' = URL_rows d \<or> URL_rows d' = increment_clicks code (URL_rows d)"
  by (auto simp: redirect_to_url_def split: option.splits)

lemma handle_URL_rows:
  assumes "handle w n req d s rng = (d', s', rng', res)"
  shows "URL_rows d' = URL_rows d \<or>
         (\<exists>u code uid. \<not> taken d code \<and> URL_rows d' = URL_rows d @ [new_URL d u code uid]) \<or>
         (\<exists>code. req = Req_short code \<and> URL_rows d' = increment_clicks code (URL_rows d))"
proof (cases req)
  case Req_index
  with assms show ?thesis by simp
next
  case (Req_register m f)
  with assms show ?thesis
    by (auto split: prod.splits dest: register_URL_rows)
next
  case (Req_login m f)
  with assms show ?thesis by (auto split: prod.splits)
next
  case (Req_dashboard m f)
  with assms obtain r where "dashboard n m f d s rng = (d', rng', r)"
    by (auto split: prod.splits)
  from dashboard_URL_rows[OF this] show ?thesis by blast
next
  case (Req_short code)
  with assms obtain r where "redirect_to_url code d = (d', r)"
    by (auto split: prod.splits)
  from redirect_to_url_URL_rows[OF this] Req_short show ?thesis by blast
next
  case Req_logout
  with assms show ?thesis by (auto split: prod.splits)
qed

lemma map_short_url_increment_clicks:
  "map short_url (increment_clicks code rs) = map short_url rs"
  by (induction rs) auto

lemma map_id_URL_increment_clicks:
  "map id_URL (increment_clicks code rs) = map id_URL rs"
  by (induction rs) auto

lemma length_increment_clicks: "length (increment_clicks code rs) = length rs"
  by (induction rs) auto

lemma handle_distinct:
  assumes "handle w n req d s rng = (d', s', rng', res)"
    and "distinct (map short_url (URL_rows d))"
  shows "distinct (map short_url (URL_rows d'))"
proof -
  from handle_URL_rows[OF assms(1)] consider
      "URL_rows d' = URL_rows d"
    | u code uid where "\<not> taken d code" "URL_rows d' = URL_rows d @ [new_URL d u code uid]"
    | code where "URL_rows d' = increment_clicks code (URL_rows d)"
    by blast
  then show ?thesis
  proof cases
    case 1
    with assms(2) show ?thesis by simp
  next
    case 2
    then show ?thesis
      using assms(2) by (auto simp: taken_iff new_URL_def)
  next
    case 3
    with assms(2) show ?thesis by (simp add: map_short_url_increment_clicks)
  qed
qed

lemma reachable_distinct: "reachable w d \<Longrightarrow> distinct (map short_url (URL_rows d))"
proof (induction rule: reachable.induct)
  case init
  show ?case by (simp add: empty_db_def)
next
  case (step d n req s rng d' s' rng' res)
  then show ?case using handle_distinct by blast
qed

subsection \<open>The example store is reachable\<close>

lemma register_alice:
  "register w0 POST [''email'' \<mapsto> ''a@x.org'', ''password'' \<mapsto> ''1''] empty_db =
     (db0, Inr \<lparr>flashed = [''Account created successfully''],
               response = Redirect 302 ''/login''\<rparr>)"
  by (simp add: register_def filter_by_email_def empty_db_def w0_def add_User_def next_id_def
      db0_def alice_def redirect_def)

lemma generate_db0: "generate_short_url depth0 db0 (sconst 0) = (Inr ''aaaaaa'', sconst 0)"
proof -
  have n: "0 < depth0" by (simp add: depth0_def)
  have "\<not> taken db0 (candidate (sconst 0) 0)"
    by (simp add: taken_iff db0_def)
  then show ?thesis
    using generate_returns[of 0 depth0 db0 "sconst 0"] n by (simp add: candidate_sconst0)
qed

lemma dashboard_alice:
  "dashboard depth0 POST [''original_url'' \<mapsto> ''https://example.com''] db0 (Some 1) (sconst 0) =
     (db1, sconst 0,
      Inr \<lparr>flashed = [''Short URL created successfully''],
           response = Redirect 302 ''/dashboard''\<rparr>)"
proof -
  have "new_URL db0 ''https://example.com'' ''aaaaaa'' (id_User alice) = link1"
    by (simp add: new_URL_def link1_def db0_def next_id_def alice_def)
  moreover have "db0\<lparr>URL_rows := URL_rows db0 @ [link1]\<rparr> = db1"
    by (simp add: db0_def db1_def)
  ultimately show ?thesis
    using dashboard_POST[OF current_user_db0 generate_db0,
        of "[''original_url'' \<mapsto> ''https://example.com'']"]
    by simp
qed

lemma reachable_db0: "reachable w0 db0"
proof -
  have "handle w0 depth0 (Req_register POST [''email'' \<mapsto> ''a@x.org'', ''password'' \<mapsto> ''1''])
          empty_db None (sconst 0) =
        (db0, None, sconst 0,
         Inr \<lparr>flashed = [''Account created successfully''],
              response = Redirect 302 ''/login''\<rparr>)"
    by (simp add: register_alice)
  with reachable.init show ?thesis by (rule reachable.step)
qed

lemma reachable_db1: "reachable w0 db1"
proof -
  have "handle w0 depth0 (Req_dashboard POST [''original_url'' \<mapsto> ''https://example.com''])
          db0 (Some 1) (sconst 0) =
        (db1, Some 1, sconst 0,
         Inr \<lparr>flashed = [''Short URL created successfully''],
              response = Redirect 302 ''/dashboard''\<rparr>)"
    by (simp add: dashboard_alice)
  with reachable_db0 show ?thesis by (rule reachable.step)
qed

subsection \<open>Uniqueness of the short codes\<close>

text \<open>
  C3. In every store the application can reach, no two rows of \<open>URL\<close> have the same
  \<open>short_url\<close>, and every request (register, login, dashboard, listing, redirect,
  logout) leads to such a store again. The store enforces it by itself: \<open>add_URL\<close>
  rejects a code that a row already has with \<open>IntegrityError\<close>, whatever was checked
  before, and any row it does add keeps the codes distinct.
\<close>

theorem short_url_unique:
  assumes "reachable w d"
  shows "distinct (map short_url (URL_rows d)) \<and>
    (\<forall>n req s rng d' s' rng' res.
       handle w n req d s rng = (d', s', rng', res) \<longrightarrow>
       distinct (map short_url (URL_rows d'))) \<and>
    (\<forall>ourl code uid. taken d code \<longrightarrow> add_URL d ourl code uid = Inl IntegrityError) \<and>
    (\<forall>ourl code uid d'. add_URL d ourl code uid = Inr d' \<longrightarrow>
       distinct (map short_url (URL_rows d')))"
proof -
  have inv: "distinct (map short_url (URL_rows d))"
    using assms by (rule reachable_distinct)
  have step: "distinct (map short_url (URL_rows d'))"
    if "handle w n req d s rng = (d', s', rng', res)" for n req s rng d' s' rng' res
    using that inv by (rule handle_distinct)
  have add: "distinct (map short_url (URL_rows d'))"
    if "add_URL d ourl code uid = Inr d'" for ourl code uid d'
  proof -
    from add_URL_Inr[OF that] obtain u where
      "\<not> taken d code" "d' = d\<lparr>URL_rows := URL_rows d @ [new_URL d u code uid]\<rparr>"
      by blast
    then show ?thesis using inv by (auto simp: taken_iff new_URL_def)
  qed
  show ?thesis
    using inv step add add_URL_taken by blast
qed

text \<open>The example store: one code, and the store refuses to add it a second time.\<close>

theorem short_url_unique_witness:
  "reachable w0 db1 \<and> distinct (map short_url (URL_rows db1)) \<and>
   taken db1 ''aaaaaa'' \<and>
   add_URL db1 (Some ''https://example.org'') ''aaaaaa'' 1 = Inl IntegrityError"
proof -
  have t: "taken db1 ''aaaaaa''" by (simp add: taken_db1)
  show ?thesis
    using short_url_unique[OF reachable_db1] reachable_db1 t by blast
qed

subsection \<open>Listing the links of a user\<close>

lemma next_id_greater: "x \<in> set ids \<Longrightarrow> x < next_id ids"
proof -
  have "x \<in> set ids \<Longrightarrow> x \<le> foldr max ids 0"
    by (induction ids) auto
  then show "x \<in> set ids \<Longrightarrow> x < next_id ids"
    by (simp add: next_id_def)
qed

lemma handle_sorted_ids:
  assumes "handle w n req d s rng = (d', s', rng', res)"
    and "sorted_wrt (<) (map id_URL (URL_rows d))"
  shows "sorted_wrt (<) (map id_URL (URL_rows d'))"
proof -
  from handle_URL_rows[OF assms(1)] consider
      "URL_rows d' = URL_rows d"
    | u code uid where "URL_rows d' = URL_rows d @ [new_URL d u code uid]"
    | code where "URL_rows d' = increment_clicks code (URL_rows d)"
    by blast
  then show ?thesis
  proof cases
    case 1
    with assms(2) show ?thesis by simp
  next
    case 2
    have "id_URL (new_URL d u code uid) = next_id (map id_URL (URL_rows d))"
      by (simp add: new_URL_def)
    then show ?thesis
      using assms(2) 2 next_id_greater[of _ "map id_URL (URL_rows d)"]
      by (auto simp: sorted_wrt_append)
  next
    case 3
    with assms(2) show ?thesis by (simp add: map_id_URL_increment_clicks)
  qed
qed

lemma reachable_sorted_ids: "reachable w d \<Longrightarrow> sorted_wrt (<) (map id_URL (URL_rows d))"
proof (induction rule: reachable.induct)
  case init
  show ?case by (simp add: empty_db_def)
next
  case (step d n req s rng d' s' rng' res)
  then show ?case using handle_sorted_ids by blast
qed

lemma sorted_wrt_map_filter:
  "sorted_wrt R (map g xs) \<Longrightarrow> sorted_wrt R (map g (filter P xs))"
  by (induction xs) auto

text \<open>
  C9. For a logged-in user, a GET of \<open>dashboard\<close> does not raise and does not change
  the store; it renders the rows of \<open>URL\<close> whose \<open>user_id\<close> is the id of the user, all
  of them and no others, in the order of the table, which is the order of insertion: in a
  reachable store the ids of the listed rows increase. For a user without rows the list
  is empty.
\<close>

theorem dashboard_lists_owner:
  assumes "current_user d s = Some cu"
  shows "dashboard n GET f d s rng =
           (d, rng,
            Inr \<lparr>flashed = [],
                 response = Render_template ''dashboard.html''
                   (filter (\<lambda>r. user_id r = id_User cu) (URL_rows d))\<rparr>) \<and>
         set (filter (\<lambda>r. user_id r = id_User cu) (URL_rows d)) =
           {r \<in> set (URL_rows d). user_id r = id_User cu} \<and>
         (reachable w d \<longrightarrow>
            sorted_wrt (<) (map id_URL (filter (\<lambda>r. user_id r = id_User cu) (URL_rows d)))) \<and>
         ((\<forall>r \<in> set (URL_rows d). user_id r \<noteq> id_User cu) \<longrightarrow>
            filter (\<lambda>r. user_id r = id_User cu) (URL_rows d) = [])"
proof -
  have "dashboard n GET f d s rng =
           (d, rng,
            Inr \<lparr>flashed = [],
                 response = Render_template ''dashboard.html''
                   (filter (\<lambda>r. user_id r = id_User cu) (URL_rows d))\<rparr>)"
    using assms by (simp add: dashboard_def filter_by_user_id_def)
  moreover have "reachable w d \<longrightarrow>
      sorted_wrt (<) (map id_URL (filter (\<lambda>r. user_id r = id_User cu) (URL_rows d)))"
    using reachable_sorted_ids[of w d] sorted_wrt_map_filter by blast
  moreover have "(\<forall>r \<in> set (URL_rows d). user_id r \<noteq> id_User cu) \<longrightarrow>
            filter (\<lambda>r. user_id r = id_User cu) (URL_rows d) = []"
    by (simp add: filter_empty_conv)
  ultimately show ?thesis by simp
qed

text \<open>Alice's dashboard before and after she stored her link.\<close>

theorem dashboard_lists_owner_witness:
  "reachable w0 db0 \<and> reachable w0 db1 \<and>
   dashboard depth0 GET Map.empty db0 (Some 1) rng_ab =
     (db0, rng_ab,
      Inr \<lparr>flashed = [], response = Render_template ''dashboard.html'' []\<rparr>) \<and>
   dashboard depth0 GET Map.empty db1 (Some 1) rng_ab =
     (db1, rng_ab,
      Inr \<lparr>flashed = [], response = Render_template ''dashboard.html'' [link1]\<rparr>)"
proof -
  have r0: "URL_rows db0 = []" by (simp add: db0_def)
  have r1: "URL_rows db1 = [link1]" by (simp add: db1_def)
  have u: "user_id link1 = id_User alice" by (simp add: link1_def alice_def)
  have a: "dashboard depth0 GET Map.empty db0 (Some 1) rng_ab =
     (db0, rng_ab,
      Inr \<lparr>flashed = [], response = Render_template ''dashboard.html'' []\<rparr>)"
    using dashboard_lists_owner[OF current_user_db0, of depth0 Map.empty rng_ab w0, THEN conjunct1]
    by (simp add: r0)
  have b: "dashboard depth0 GET Map.empty db1 (Some 1) rng_ab =
     (db1, rng_ab,
      Inr \<lparr>flashed = [], response = Render_template ''dashboard.html'' [link1]\<rparr>)"
    using dashboard_lists_owner[OF current_user_db1, of depth0 Map.empty rng_ab w0, THEN conjunct1]
    by (simp add: r1 u)
  show ?thesis using a b reachable_db0 reachable_db1 by simp
qed

subsection \<open>The click counter\<close>

lemma increment_clicks_cases:
  "increment_clicks code rs = rs \<or>
   (\<exists>i<length rs. short_url (rs ! i) = code \<and>
      increment_clicks code rs = rs[i := (rs ! i)\<lparr>clicks := clicks (rs ! i) + 1\<rparr>])"
proof (induction rs)
  case Nil
  show ?case by simp
next
  case (Cons r rs)
  show ?case
  proof (cases "short_url r = code")
    case True
    then have "0 < length (r # rs) \<and> short_url ((r # rs) ! 0) = code \<and>
      increment_clicks code (r # rs) =
        (r # rs)[0 := ((r # rs) ! 0)\<lparr>clicks := clicks ((r # rs) ! 0) + 1\<rparr>]"
      by simp
    then show ?thesis by blast
  next
    case False
    from Cons.IH show ?thesis
    proof
      assume "increment_clicks code rs = rs"
      with False show ?thesis by simp
    next
      assume "\<exists>i<length rs. short_url (rs ! i) = code \<and>
        increment_clicks code rs = rs[i := (rs ! i)\<lparr>clicks := clicks (rs ! i) + 1\<rparr>]"
      then obtain i where i: "i < length rs" "short_url (rs ! i) = code"
        "increment_clicks code rs = rs[i := (rs ! i)\<lparr>clicks := clicks (rs ! i) + 1\<rparr>]"
        by blast
      with False have "Suc i < length (r # rs) \<and> short_url ((r # rs) ! Suc i) = code \<and>
        increment_clicks code (r # rs) =
          (r # rs)[Suc i := ((r # rs) ! Suc i)\<lparr>clicks := clicks ((r # rs) ! Suc i) + 1\<rparr>]"
        by simp
      then show ?thesis by blast
    qed
  qed
qed

lemma clicks_update_bounds:
  assumes "i < length rs" "j < length rs"
  shows "clicks (rs ! j) \<le> clicks (rs[i := (rs ! i)\<lparr>clicks := clicks (rs ! i) + 1\<rparr>] ! j) \<and>
         clicks (rs[i := (rs ! i)\<lparr>clicks := clicks (rs ! i) + 1\<rparr>] ! j) \<le> clicks (rs ! j) + 1"
  using assms by (cases "i = j") simp_all

text \<open>
  C7. Whatever the request, no row of \<open>URL\<close> disappears and no click count goes down.
  Every request other than the redirect (index, register, login, dashboard with GET or
  POST, logout) leaves all the rows that were there exactly as they were. The redirect
  either changes nothing or adds exactly 1 to the clicks of one row with the requested code
  and changes nothing else.
\<close>

theorem clicks_frame:
  assumes "handle w n req d s rng = (d', s', rng', res)"
  shows "((\<forall>code. req \<noteq> Req_short code) \<longrightarrow>
            take (length (URL_rows d)) (URL_rows d') = URL_rows d) \<and>
         (\<forall>code. req = Req_short code \<longrightarrow>
            URL_rows d' = URL_rows d \<or>
            (\<exists>i<length (URL_rows d). short_url (URL_rows d ! i) = code \<and>
               URL_rows d' =
                 (URL_rows d)[i := (URL_rows d ! i)\<lparr>clicks := clicks (URL_rows d ! i) + 1\<rparr>])) \<and>
         length (URL_rows d) \<le> length (URL_rows d') \<and>
         (\<forall>j<length (URL_rows d).
            clicks (URL_rows d ! j) \<le> clicks (URL_rows d' ! j) \<and>
            clicks (URL_rows d' ! j) \<le> clicks (URL_rows d ! j) + 1)"
proof (cases "\<exists>code. req = Req_short code")
  case False
  with handle_URL_rows[OF assms] consider
      "URL_rows d' = URL_rows d"
    | u code uid where "URL_rows d' = URL_rows d @ [new_URL d u code uid]"
    by blast
  then have "take (length (URL_rows d)) (URL_rows d') = URL_rows d \<and>
      length (URL_rows d) \<le> length (URL_rows d') \<and>
      (\<forall>j<length (URL_rows d). URL_rows d' ! j = URL_rows d ! j)"
    by cases (simp_all add: nth_append)
  then show ?thesis using False by simp
next
  case True
  then obtain code where req: "req = Req_short code" by blast
  with assms obtain r where "redirect_to_url code d = (d', r)"
    by (auto split: prod.splits)
  from redirect_to_url_URL_rows[OF this] increment_clicks_cases[of code "URL_rows d"]
  have shape: "URL_rows d' = URL_rows d \<or>
            (\<exists>i<length (URL_rows d). short_url (URL_rows d ! i) = code \<and>
               URL_rows d' =
                 (URL_rows d)[i := (URL_rows d ! i)\<lparr>clicks := clicks (URL_rows d ! i) + 1\<rparr>])"
    by auto
  then have len: "length (URL_rows d') = length (URL_rows d)"
    by auto
  have bounds: "\<forall>j<length (URL_rows d).
            clicks (URL_rows d ! j) \<le> clicks (URL_rows d' ! j) \<and>
            clicks (URL_rows d' ! j) \<le> clicks (URL_rows d ! j) + 1"
    using shape clicks_update_bounds[of _ "URL_rows d"] by auto
  show ?thesis using req shape len bounds by simp
qed

text \<open>A redirect and a new link on the example store.\<close>

theorem clicks_frame_witness:
  "handle w0 depth0 (Req_short ''aaaaaa'') db1 None rng_ab =
     (db1\<lparr>URL_rows := [link1\<lparr>clicks := 1\<rparr>]\<rparr>, None, rng_ab,
      Inr \<lparr>flashed = [], response = Redirect 302 ''https://example.com''\<rparr>) \<and>
   clicks (URL_rows db1 ! 0) \<le> clicks (URL_rows (db1\<lparr>URL_rows := [link1\<lparr>clicks := 1\<rparr>]\<rparr>) ! 0) \<and>
   handle w0 depth0 (Req_dashboard POST [''original_url'' \<mapsto> ''https://example.com''])
       db0 (Some 1) (sconst 0) =
     (db1, Some 1, sconst 0,
      Inr \<lparr>flashed = [''Short URL created successfully''],
           response = Redirect 302 ''/dashboard''\<rparr>) \<and>
   take (length (URL_rows db0)) (URL_rows db1) = URL_rows db0"
proof -
  have rows: "URL_rows db1 = [link1]" by (simp add: db1_def)
  have l: "short_url link1 = ''aaaaaa''" "original_url link1 = ''https://example.com''"
    "clicks link1 = 0"
    by (simp_all add: link1_def)
  have h1: "handle w0 depth0 (Req_short ''aaaaaa'') db1 None rng_ab =
     (db1\<lparr>URL_rows := [link1\<lparr>clicks := 1\<rparr>]\<rparr>, None, rng_ab,
      Inr \<lparr>flashed = [], response = Redirect 302 ''https://example.com''\<rparr>)"
    by (simp add: redirect_to_url_def filter_by_short_url_def rows l redirect_def)
  have h2: "handle w0 depth0 (Req_dashboard POST [''original_url'' \<mapsto> ''https://example.com''])
       db0 (Some 1) (sconst 0) =
     (db1, Some 1, sconst 0,
      Inr \<lparr>flashed = [''Short URL created successfully''],
           response = Redirect 302 ''/dashboard''\<rparr>)"
    by (simp add: dashboard_alice)
  have c1: "clicks (URL_rows db1 ! 0) \<le>
      clicks (URL_rows (db1\<lparr>URL_rows := [link1\<lparr>clicks := 1\<rparr>]\<rparr>) ! 0)"
    using clicks_frame[OF h1] by (simp add: rows)
  have c2: "take (length (URL_rows db0)) (URL_rows db1) = URL_rows db0"
    using clicks_frame[OF h2] by simp
  show ?thesis using h1 h2 c1 c2 by simp
qed

end
